theory Spec2Isabelle
  imports Main
begin

section \<open>Python string primitives used by obsidian_import.py\<close>

text \<open>
  A Python \<open>str\<close> is modelled as a \<open>string\<close>, one \<open>char\<close> per code point; the model
  covers text whose code points are below 256. \<open>is_space\<close> is \<open>str.isspace\<close> on one
  character, which is what \<open>split()\<close>, \<open>strip()\<close> and \<open>lstrip()\<close> without argument use:
  tab to carriage return, the four separators 28..31, space, NEL (133) and NBSP (160).
\<close>

definition is_space :: "char \<Rightarrow> bool" where
  "is_space c =
     (let n = (of_char c :: nat)
      in (9 \<le> n \<and> n \<le> 13) \<or> (28 \<le> n \<and> n \<le> 32) \<or> n = 133 \<or> n = 160)"

text \<open>\<open>s.startswith(p)\<close> and \<open>s.endswith(p)\<close>.\<close>

definition startswith :: "string \<Rightarrow> string \<Rightarrow> bool" where
  "startswith s p = (take (length p) s = p)"

definition endswith :: "string \<Rightarrow> string \<Rightarrow> bool" where
  "endswith s p = (length p \<le> length s \<and> drop (length s - length p) s = p)"

text \<open>\<open>s[i:j]\<close> for indices \<open>0 \<le> i\<close>, \<open>0 \<le> j\<close>: out-of-range indices are clamped.\<close>

definition py_slice :: "string \<Rightarrow> nat \<Rightarrow> nat \<Rightarrow> string" where
  "py_slice s i j = take (j - i) (drop i s)"

text \<open>\<open>s.lstrip()\<close>, \<open>s.rstrip()\<close>, \<open>s.strip()\<close>.\<close>

definition lstrip :: "string \<Rightarrow> string" where
  "lstrip s = dropWhile is_space s"

definition rstrip :: "string \<Rightarrow> string" where
  "rstrip s = rev (dropWhile is_space (rev s))"

definition strip :: "string \<Rightarrow> string" where
  "strip s = rstrip (lstrip s)"

text \<open>
  \<open>s.split()\<close>: the words between runs of whitespace, no empty word. The scan keeps the
  word read so far in \<open>cur\<close>.
\<close>

fun split_scan :: "string \<Rightarrow> string \<Rightarrow> string list" where
  "split_scan cur [] = (if cur = [] then [] else [cur])"
| "split_scan cur (c # cs) =
     (if is_space c then (if cur = [] then split_scan [] cs else cur # split_scan [] cs)
      else split_scan (cur @ [c]) cs)"

definition split_ws :: "string \<Rightarrow> string list" where
  "split_ws s = split_scan [] s"

text \<open>\<open>s.split("\n")\<close>: always at least one piece; the pieces keep every other character.\<close>

fun split_nl :: "string \<Rightarrow> string list" where
  "split_nl [] = [[]]"
| "split_nl (c # cs) =
     (if c = CHR 0x0A then [] # split_nl cs
      else (case split_nl cs of
              [] \<Rightarrow> [[c]]
            | l # ls \<Rightarrow> (c # l) # ls))"

text \<open>
  \<open>s.replace(old, new)\<close>: the non-overlapping occurrences of \<open>old\<close>, found from the left,
  are replaced; an empty \<open>old\<close> matches before every character and at the end.
\<close>

function py_replace :: "string \<Rightarrow> string \<Rightarrow> string \<Rightarrow> string" where
  "py_replace s old new =
     (if old = [] then new @ concat (map (\<lambda>c. c # new) s)
      else if s = [] then []
      else if startswith s old then new @ py_replace (drop (length old) s) old new
      else hd s # py_replace (tl s) old new)"
  by pat_completeness auto
termination
  by (relation "measure (\<lambda>(s, old, new). length s)") auto

declare py_replace.simps [simp del]

section \<open>The token model\<close>

text \<open>
  The dictionaries the program builds, one constructor per value of their \<open>"type"\<close> key,
  the fields in the order of the source.
\<close>

datatype element =
    Text (marks: "string list") (text_content: string)
  | Link (link_content: string) (slug: string)
  | Hashtag (hashtag_content: string)
  | Checkbox (isChecked: bool)
  | Spaceship (linkedNoteId: string) (spaceship_tokenId: string)

datatype paragraph_node = Paragraph (tokenId: string) (paragraph_content: "element list")

datatype list_item = ListItem (item_content: "paragraph_node list") (depth: int)

datatype token = ParagraphToken paragraph_node | ListToken "list_item list"

text \<open>The \<open>"content"\<close> key of an element: the checkbox and the spaceship have none.\<close>

fun get_content :: "element \<Rightarrow> string option" where
  "get_content (Text m c) = Some c"
| "get_content (Link c s) = Some c"
| "get_content (Hashtag c) = Some c"
| "get_content (Checkbox b) = None"
| "get_content (Spaceship l t) = None"

section \<open>parse_by_word\<close>

text \<open>
  The URL test is \<open>re.match\<close> of
  \<^verbatim>\<open>http[s]?://(?:[a-zA-Z]|[0-9]|[$-_@.&+]|[!*\\(\\),]|(?:%[0-9a-fA-F][0-9a-fA-F]))+\<close>
  which is anchored at the start of the word only. \<open>url_unit\<close> is one round of the
  repeated group, tried at the head of the rest; the word matches when the scheme is
  followed by at least one round.
\<close>

definition char_between :: "char \<Rightarrow> char \<Rightarrow> char \<Rightarrow> bool" where
  "char_between lo hi c = ((of_char lo :: nat) \<le> of_char c \<and> (of_char c :: nat) \<le> of_char hi)"

definition is_hex :: "char \<Rightarrow> bool" where
  "is_hex c = (char_between CHR ''0'' CHR ''9'' c \<or> char_between CHR ''a'' CHR ''f'' c
               \<or> char_between CHR ''A'' CHR ''F'' c)"

fun url_unit :: "string \<Rightarrow> bool" where
  "url_unit [] = False"
| "url_unit (c # cs) =
     (char_between CHR ''a'' CHR ''z'' c \<or> char_between CHR ''A'' CHR ''Z'' c
      \<or> char_between CHR ''0'' CHR ''9'' c
      \<or> (char_between CHR ''$'' CHR ''_'' c \<or> c \<in> set ''@.&+'')
      \<or> c \<in> set [CHR ''!'', CHR ''*'', CHR 0x5C, CHR ''('', CHR 0x5C, CHR '')'', CHR '','']
      \<or> (c = CHR ''%'' \<and> (case cs of h1 # h2 # _ \<Rightarrow> is_hex h1 \<and> is_hex h2 | _ \<Rightarrow> False)))"

definition is_url :: "string \<Rightarrow> bool" where
  "is_url word =
     (startswith word ''http'' \<and>
      ((startswith (drop 4 word) ''s://'' \<and> url_unit (drop 8 word))
       \<or> (startswith (drop 4 word) ''://'' \<and> url_unit (drop 7 word))))"

text \<open>The body of the loop over \<open>enumerate(words)\<close>: \<open>i\<close> is the index of the word.\<close>

definition word_element :: "string \<Rightarrow> element" where
  "word_element word =
     (if is_url word then Link word word
      else if startswith word ''#'' then Hashtag word
      else Text [] word)"

fun words_loop :: "string list \<Rightarrow> nat \<Rightarrow> string list \<Rightarrow> element list" where
  "words_loop words i [] = []"
| "words_loop words i (word # rest) =
     word_element word
     # (if int i < int (length words) - 1 then [Text [] '' ''] else [])
     @ words_loop words (i + 1) rest"

definition parse_by_word :: "string \<Rightarrow> element list" where
  "parse_by_word line = (let words = split_ws line in words_loop words 0 words)"

section \<open>The program state and generate_token_id\<close>

text \<open>
  The state the functions act on: how many identifiers have been generated so far, and
  the title-to-identifier dictionary that \<open>obsidian_to_ideaflow_link_mapping\<close> creates
  and that \<open>obsidian_to_ideaflow\<close> hands, as the argument \<open>mapping\<close>, to
  \<open>convert_to_tokens\<close> and from there to \<open>parse_line\<close>. The random source is the
  parameter \<open>uuid4\<close>: \<open>uuid4 n\<close> is the text of \<open>str(uuid.uuid4())\<close> at the call
  number \<open>n\<close>.
\<close>

record world =
  used :: nat
  mapping :: "string \<rightharpoonup> string"

definition generate_token_id :: "(nat \<Rightarrow> string) \<Rightarrow> world \<Rightarrow> string \<times> world" where
  "generate_token_id uuid4 w = (take 8 (uuid4 (used w)), w\<lparr>used := used w + 1\<rparr>)"

section \<open>obsidian_to_ideaflow_link_mapping\<close>

text \<open>
  \<open>os.walk\<close> is given by the triples \<open>(root, dirs, files)\<close> it yields, in its order.
  The inner loop runs over the file names of one directory, the outer one over the
  directories.
\<close>

fun files_loop :: "(nat \<Rightarrow> string) \<Rightarrow> string list \<Rightarrow> world \<Rightarrow> world" where
  "files_loop uuid4 [] w = w"
| "files_loop uuid4 (filename # files) w =
     (if endswith filename ''.md'' then
        (let title = py_replace (py_replace filename ''.md'' []) ''#'' [];
             (new_id, w1) = generate_token_id uuid4 w
         in files_loop uuid4 files (w1\<lparr>mapping := (mapping w1)(title \<mapsto> new_id)\<rparr>))
      else files_loop uuid4 files w)"

fun walk_loop ::
  "(nat \<Rightarrow> string) \<Rightarrow> (string \<times> string list \<times> string list) list \<Rightarrow> world \<Rightarrow> world" where
  "walk_loop uuid4 [] w = w"
| "walk_loop uuid4 ((root, dirs, files) # rest) w = walk_loop uuid4 rest (files_loop uuid4 files w)"

definition obsidian_to_ideaflow_link_mapping ::
  "(nat \<Rightarrow> string) \<Rightarrow> (string \<times> string list \<times> string list) list \<Rightarrow> world \<Rightarrow> world" where
  "obsidian_to_ideaflow_link_mapping uuid4 walk w = walk_loop uuid4 walk (w\<lparr>mapping := Map.empty\<rparr>)"

section \<open>parse_line\<close>

text \<open>
  The link pattern is \<^verbatim>\<open>\[\[(.*?)\]\]\<close>. \<open>find_close\<close> is the lazy group followed by the
  closing brackets, run on the text after an opening pair: it stops at the first place
  where two closing brackets follow, and fails at a newline, which the dot does not
  match. \<open>finditer\<close> tries each start position from the left and goes on after the end
  of a match; a match is (its text, its start, its end).
\<close>

fun find_close :: "string \<Rightarrow> nat option" where
  "find_close [] = None"
| "find_close (c # cs) =
     (if startswith (c # cs) '']]'' then Some 0
      else if c = CHR 0x0A then None
      else map_option Suc (find_close cs))"

function finditer :: "nat \<Rightarrow> string \<Rightarrow> (string \<times> nat \<times> nat) list" where
  "finditer pos s =
     (if s = [] then []
      else if startswith s ''[['' then
        (case find_close (drop 2 s) of
           Some n \<Rightarrow> (take (n + 4) s, pos, pos + n + 4) # finditer (pos + n + 4) (drop (n + 4) s)
         | None \<Rightarrow> finditer (pos + 1) (tl s))
      else finditer (pos + 1) (tl s))"
  by pat_completeness auto
termination
  by (relation "measure (\<lambda>(pos, s). length s)") auto

declare finditer.simps [simp del]

text \<open>
  What \<open>parse_line\<close> returns: the list dictionary with the content type \<open>"list"\<close>, or the
  elements with the content type \<open>"paragraph"\<close>.
\<close>

datatype parsed = ListLine token | ParagraphLine "element list"

fun content_type :: "parsed \<Rightarrow> string" where
  "content_type (ListLine t) = ''list''"
| "content_type (ParagraphLine es) = ''paragraph''"

text \<open>
  The loop over \<open>obsidian_links\<close>. The default of \<open>mapping.get\<close> is an argument, so
  \<open>generate_token_id\<close> is called for it whether or not the title is a key.
\<close>

fun links_loop ::
  "(nat \<Rightarrow> string) \<Rightarrow> string \<Rightarrow> (string \<times> nat \<times> nat) list \<Rightarrow> element list \<times> nat \<Rightarrow> world
     \<Rightarrow> (element list \<times> nat) \<times> world" where
  "links_loop uuid4 line [] (elements, last_pos) w = ((elements, last_pos), w)"
| "links_loop uuid4 line ((link, start, end_pos) # rest) (elements, last_pos) w =
     (let elements1 =
            (if start > last_pos then elements @ parse_by_word (py_slice line last_pos start)
             else elements);
          linked_note = py_slice link 2 (length link - 2);
          (fresh, w1) = generate_token_id uuid4 w;
          linked_note_id = (case mapping w1 linked_note of Some v \<Rightarrow> v | None \<Rightarrow> fresh);
          (new_id, w2) = generate_token_id uuid4 w1
      in links_loop uuid4 line rest (elements1 @ [Spaceship linked_note_id new_id], end_pos) w2)"

definition parse_line :: "(nat \<Rightarrow> string) \<Rightarrow> string \<Rightarrow> world \<Rightarrow> parsed \<times> world" where
  "parse_line uuid4 line w =
     (if startswith line ''* '' then
        (let stripped_line = lstrip line;
             leading_spaces = int (length line) - int (length stripped_line);
             depth = leading_spaces div 4;
             remaining_text = drop 2 line;
             content = parse_by_word remaining_text;
             (new_id, w1) = generate_token_id uuid4 w
         in (ListLine (ListToken [ListItem [Paragraph new_id content] depth]), w1))
      else if startswith line ''- [ ] '' \<or> startswith line ''- [x] '' then
        (ParagraphLine ([Checkbox (startswith line ''- [x] '')] @ parse_by_word (drop 6 line)), w)
      else
        (let obsidian_links = finditer 0 line;
             ((elements, last_pos), w1) = links_loop uuid4 line obsidian_links ([], 0) w
         in (ParagraphLine
               (if last_pos < length line then elements @ parse_by_word (drop last_pos line)
                else elements), w1)))"

section \<open>convert_to_tokens\<close>

text \<open>
  The body of the loop over the lines: the token it appends and the state it leaves.
  \<open>token_id\<close> is generated before \<open>parse_line\<close> runs, also for a list line, which
  does not use it.
\<close>

definition paragraph_token :: "(nat \<Rightarrow> string) \<Rightarrow> string \<Rightarrow> world \<Rightarrow> token \<times> world" where
  "paragraph_token uuid4 paragraph w =
     (if strip paragraph \<noteq> [] then
        (let (token_id, w1) = generate_token_id uuid4 w;
             (result, w2) = parse_line uuid4 paragraph w1
         in (case result of
               ListLine elements \<Rightarrow> (elements, w2)
             | ParagraphLine elements \<Rightarrow> (ParagraphToken (Paragraph token_id elements), w2)))
      else
        (let (new_id, w1) = generate_token_id uuid4 w
         in (ParagraphToken (Paragraph new_id []), w1)))"

fun paragraphs_loop ::
  "(nat \<Rightarrow> string) \<Rightarrow> string list \<Rightarrow> token list \<Rightarrow> world \<Rightarrow> token list \<times> world" where
  "paragraphs_loop uuid4 [] tokens w = (tokens, w)"
| "paragraphs_loop uuid4 (paragraph # rest) tokens w =
     (let (new_token, w1) = paragraph_token uuid4 paragraph w
      in paragraphs_loop uuid4 rest (tokens @ [new_token]) w1)"

definition convert_to_tokens :: "(nat \<Rightarrow> string) \<Rightarrow> string \<Rightarrow> world \<Rightarrow> token list \<times> world" where
  "convert_to_tokens uuid4 content w = paragraphs_loop uuid4 (split_nl content) [] w"

section \<open>Notions of the specification\<close>

text \<open>An element is a cross-note reference when its type is \<open>"spaceship"\<close>.\<close>

fun is_spaceship :: "element \<Rightarrow> bool" where
  "is_spaceship (Spaceship l t) = True"
| "is_spaceship e = False"

text \<open>
  The content fields of a sequence of elements, concatenated in order; there is no
  result when an element has no content field.
\<close>

fun concat_contents :: "element list \<Rightarrow> string option" where
  "concat_contents [] = Some []"
| "concat_contents (e # es) =
     (case get_content e of
        None \<Rightarrow> None
      | Some c \<Rightarrow> map_option ((@) c) (concat_contents es))"

text \<open>
  Collapsing whitespace runs: every maximal run of whitespace characters becomes one
  space. The flag says that the character before was whitespace. \<open>collapse_internal\<close>
  collapses the runs between the first and the last non-whitespace character only and
  keeps the line's leading and trailing whitespace as it is.
\<close>

fun collapse :: "bool \<Rightarrow> string \<Rightarrow> string" where
  "collapse b [] = []"
| "collapse b (c # cs) =
     (if is_space c then (if b then collapse True cs else CHR '' '' # collapse True cs)
      else c # collapse False cs)"

definition collapse_runs :: "string \<Rightarrow> string" where
  "collapse_runs s = collapse False s"

definition collapse_internal :: "string \<Rightarrow> string" where
  "collapse_internal s =
     (if strip s = [] then s
      else takeWhile is_space s @ collapse_runs (strip s) @ rev (takeWhile is_space (rev s)))"

text \<open>A plain text line: none of its words is a URL or a hashtag.\<close>

definition plain_text_line :: "string \<Rightarrow> bool" where
  "plain_text_line line =
     list_all (\<lambda>word. \<not> is_url word \<and> \<not> startswith word ''#'') (split_ws line)"

text \<open>The words of a line joined by single spaces.\<close>

fun join_sp :: "string list \<Rightarrow> string" where
  "join_sp [] = []"
| "join_sp [word] = word"
| "join_sp (word # rest) = word @ '' '' @ join_sp rest"

text \<open>
  A line with link occurrences, written out: each occurrence is a title between double
  brackets with the plain span before it, and \<open>post\<close> is the span after the last one.
  \<open>has_pair c s\<close> says that \<open>c\<close> occurs twice in a row in \<open>s\<close>. A span before an
  occurrence opens no link of its own, also not together with the bracket that follows
  it; a title has no newline and closes only at its own closing brackets.
\<close>

fun assemble :: "(string \<times> string) list \<Rightarrow> string \<Rightarrow> string" where
  "assemble [] post = post"
| "assemble ((pre, title) # segs) post = pre @ ''[['' @ title @ '']]'' @ assemble segs post"

fun has_pair :: "char \<Rightarrow> string \<Rightarrow> bool" where
  "has_pair c (x # y # s) = ((x = c \<and> y = c) \<or> has_pair c (y # s))"
| "has_pair c s = False"

definition plain_span :: "string \<Rightarrow> bool" where
  "plain_span pre = (\<not> has_pair CHR ''['' (pre @ ''[''))"

definition link_title :: "string \<Rightarrow> bool" where
  "link_title title = (CHR 0x0A \<notin> set title \<and> \<not> has_pair CHR '']'' (title @ '']''))"

text \<open>
  \<open>closes s\<close>: closing brackets follow in \<open>s\<close> before any newline. \<open>no_link s\<close>: no
  opening pair in \<open>s\<close> is closed that way, so \<open>s\<close> holds no link occurrence.
\<close>

fun closes :: "string \<Rightarrow> bool" where
  "closes [] = False"
| "closes (c # cs) = (startswith (c # cs) '']]'' \<or> (c \<noteq> CHR 0x0A \<and> closes cs))"

fun no_link :: "string \<Rightarrow> bool" where
  "no_link [] = True"
| "no_link (c # cs) =
     (\<not> (startswith (c # cs) ''[['' \<and> closes (drop 2 (c # cs))) \<and> no_link cs)"

definition link_segments :: "(string \<times> string) list \<Rightarrow> bool" where
  "link_segments segs = list_all (\<lambda>(pre, title). plain_span pre \<and> link_title title) segs"

text \<open>
  The matches expected in such a line when its first character is at position \<open>pos\<close>, and
  the elements expected for it when \<open>n\<close> identifiers have been generated before: each
  occurrence takes two identifiers, the first for the default of the lookup.
\<close>

fun expected_matches :: "nat \<Rightarrow> (string \<times> string) list \<Rightarrow> (string \<times> nat \<times> nat) list" where
  "expected_matches pos [] = []"
| "expected_matches pos ((pre, title) # segs) =
     (''[['' @ title @ '']]'', pos + length pre, pos + length pre + length title + 4)
     # expected_matches (pos + length pre + length title + 4) segs"

fun link_elements ::
  "(nat \<Rightarrow> string) \<Rightarrow> (string \<rightharpoonup> string) \<Rightarrow> nat \<Rightarrow> (string \<times> string) list \<Rightarrow> element list" where
  "link_elements uuid4 m n [] = []"
| "link_elements uuid4 m n ((pre, title) # segs) =
     parse_by_word pre
     @ [Spaceship (case m title of Some v \<Rightarrow> v | None \<Rightarrow> take 8 (uuid4 n)) (take 8 (uuid4 (n + 1)))]
     @ link_elements uuid4 m (n + 2) segs"

definition expected_elements ::
  "(nat \<Rightarrow> string) \<Rightarrow> (string \<rightharpoonup> string) \<Rightarrow> nat \<Rightarrow> (string \<times> string) list \<Rightarrow> string
     \<Rightarrow> element list" where
  "expected_elements uuid4 m n segs post = link_elements uuid4 m n segs @ parse_by_word post"

text \<open>All the inline elements in what \<open>parse_line\<close> returns.\<close>

fun token_elements :: "token \<Rightarrow> element list" where
  "token_elements (ParagraphToken p) = paragraph_content p"
| "token_elements (ListToken items) =
     concat (map (\<lambda>item. concat (map paragraph_content (item_content item))) items)"

fun parsed_elements :: "parsed \<Rightarrow> element list" where
  "parsed_elements (ListLine t) = token_elements t"
| "parsed_elements (ParagraphLine es) = es"

text \<open>A plain line is one that is neither a list line nor a checkbox line.\<close>

definition plain_line :: "string \<Rightarrow> bool" where
  "plain_line line =
     (\<not> startswith line ''* '' \<and> \<not> startswith line ''- [ ] '' \<and> \<not> startswith line ''- [x] '')"

section \<open>Whitespace: split, strip and collapse\<close>

lemma rstrip_empty_iff: "rstrip s = [] \<longleftrightarrow> (\<forall>c\<in>set s. is_space c)"
  by (simp add: rstrip_def dropWhile_eq_Nil_conv)

lemma rstrip_Cons:
  "rstrip (c # s) = (if is_space c \<and> rstrip s = [] then [] else c # rstrip s)"
  by (auto simp: rstrip_def dropWhile_append dropWhile_eq_Nil_conv)

lemma split_scan_empty_iff:
  "split_scan cur s = [] \<longleftrightarrow> cur = [] \<and> (\<forall>c\<in>set s. is_space c)"
  by (induction s arbitrary: cur) auto

lemma join_sp_Cons:
  "join_sp (word # rest) = (if rest = [] then word else word @ '' '' @ join_sp rest)"
  by (cases rest) simp_all

text \<open>
  The scan with a word in progress yields that word and then the collapsed rest; the
  scan between words skips the whitespace it is in.
\<close>

lemma join_split_scan:
  "(cur \<noteq> [] \<longrightarrow> join_sp (split_scan cur s) = cur @ collapse False (rstrip s))
   \<and> join_sp (split_scan [] s) = collapse True (rstrip s)"
proof (induction s arbitrary: cur)
  case Nil
  then show ?case by (simp add: rstrip_def)
next
  case (Cons c cs)
  show ?case
  proof (cases "is_space c")
    case True
    show ?thesis
    proof (cases "rstrip cs = []")
      case True
      with \<open>is_space c\<close> show ?thesis
        using split_scan_empty_iff [of "[]" cs]
        by (simp add: rstrip_Cons rstrip_empty_iff)
    next
      case False
      then have "split_scan [] cs \<noteq> []"
        by (simp add: split_scan_empty_iff rstrip_empty_iff)
      with False \<open>is_space c\<close> show ?thesis
        using Cons.IH [of "[]"] by (simp add: rstrip_Cons join_sp_Cons)
    qed
  next
    case False
    then show ?thesis
      using Cons.IH [of "cur @ [c]"] Cons.IH [of "[c]"] by (simp add: rstrip_Cons)
  qed
qed

lemma collapse_True_lstrip: "collapse True t = collapse False (lstrip t)"
  by (induction t) (simp_all add: lstrip_def)

lemma lstrip_rstrip_commute: "lstrip (rstrip s) = rstrip (lstrip s)"
proof (induction s)
  case Nil
  then show ?case by (simp add: lstrip_def rstrip_def)
next
  case (Cons c s)
  then show ?case
    by (auto simp: rstrip_Cons lstrip_def)
qed

lemma join_split_ws: "join_sp (split_ws s) = collapse_runs (strip s)"
  using join_split_scan [of "[]" s]
  by (simp add: split_ws_def collapse_runs_def strip_def collapse_True_lstrip
      lstrip_rstrip_commute)

section \<open>Results about parse_by_word\<close>

lemma get_content_word_element: "get_content (word_element word) = Some word"
  by (simp add: word_element_def)

lemma concat_contents_words_loop:
  "words = pre @ rest \<Longrightarrow> i = length pre \<Longrightarrow>
   concat_contents (words_loop words i rest) = Some (join_sp rest)"
proof (induction rest arbitrary: pre i)
  case Nil
  then show ?case by simp
next
  case (Cons word rest)
  have "concat_contents (words_loop words (i + 1) rest) = Some (join_sp rest)"
    using Cons.IH [of "pre @ [word]" "i + 1"] Cons.prems by simp
  moreover have "int i < int (length words) - 1 \<longleftrightarrow> rest \<noteq> []"
    using Cons.prems by auto
  ultimately show ?case
    by (simp add: get_content_word_element join_sp_Cons)
qed

lemma concat_contents_parse_by_word:
  "concat_contents (parse_by_word line) = Some (collapse_runs (strip line))"
  using concat_contents_words_loop [of "split_ws line" "[]" "split_ws line" 0]
  by (simp add: parse_by_word_def Let_def join_split_ws)

lemma word_element_not_spaceship: "\<not> is_spaceship (word_element word)"
  by (simp add: word_element_def)

lemma words_loop_no_spaceship: "\<not> list_ex is_spaceship (words_loop words i rest)"
  by (induction rest arbitrary: i) (simp_all add: word_element_not_spaceship)

lemma parse_by_word_no_spaceship: "\<not> list_ex is_spaceship (parse_by_word text)"
  by (simp add: parse_by_word_def Let_def words_loop_no_spaceship)

text \<open>
  C8. On the empty input string \<open>parse_by_word\<close> returns the empty sequence: no word
  element and no separator space element.
\<close>

theorem parse_by_word_empty: "parse_by_word [] = []"
  by (simp add: parse_by_word_def split_ws_def)

text \<open>
  C3, as the code has it. For every plain text line (no word is a URL or a hashtag), the
  content fields of the elements of \<open>parse_by_word\<close>, concatenated in order, are the
  line with its leading and trailing whitespace removed and every whitespace run inside
  collapsed to a single space.
\<close>

theorem parse_by_word_contents_collapse:
  "plain_text_line line \<Longrightarrow>
   concat_contents (parse_by_word line) = Some (collapse_runs (strip line))"
  by (rule concat_contents_parse_by_word)

theorem parse_by_word_contents_collapse_witness:
  "plain_text_line ''a  b '' \<and> concat_contents (parse_by_word ''a  b '') = Some ''a b''"
  using parse_by_word_contents_collapse [of "''a  b ''"]
  by (simp add: plain_text_line_def split_ws_def is_space_def is_url_def startswith_def
      collapse_runs_def strip_def lstrip_def rstrip_def)

text \<open>
  C3, as stated, fails on a line with leading whitespace: the plain text line \<open>" a"\<close>
  gives the single content \<open>"a"\<close>, which is not the line with its whitespace runs
  collapsed, whether or not the leading run counts as internal.
\<close>

theorem parse_by_word_contents_counterexample:
  "plain_text_line '' a''
   \<and> concat_contents (parse_by_word '' a'') = Some ''a''
   \<and> concat_contents (parse_by_word '' a'') \<noteq> Some (collapse_internal '' a'')
   \<and> concat_contents (parse_by_word '' a'') \<noteq> Some (collapse_runs '' a'')"
  by (simp add: parse_by_word_def split_ws_def is_space_def word_element_def is_url_def
      startswith_def collapse_internal_def collapse_runs_def strip_def lstrip_def rstrip_def
      plain_text_line_def)

section \<open>Results about parse_line\<close>

text \<open>
  C1. The line \<open>"    * a"\<close>, a list prefix after four spaces, is not classified as a
  list item: it does not start with the prefix, so it is parsed as a plain paragraph
  line, and no list item of depth 1 is produced.
\<close>

theorem parse_line_indented_bullet:
  "parse_line uuid4 ''    * a'' w
     = (ParagraphLine [Text [] ''*'', Text [] '' '', Text [] ''a''], w)"
  by (simp add: parse_line_def startswith_def finditer.simps parse_by_word_def split_ws_def
      is_space_def word_element_def is_url_def)

text \<open>A line that is classified as a list item has no leading whitespace: its depth is 0.\<close>

lemma parse_line_list_depth_zero:
  assumes "startswith line ''* ''"
  shows "parse_line uuid4 line w =
     (ListLine (ListToken
        [ListItem [Paragraph (take 8 (uuid4 (used w))) (parse_by_word (drop 2 line))] 0]),
      w\<lparr>used := used w + 1\<rparr>)"
proof -
  obtain cs where l: "line = CHR ''*'' # cs"
    using assms by (cases line) (auto simp: startswith_def)
  have "lstrip line = line"
    by (simp add: l lstrip_def is_space_def)
  then show ?thesis
    using assms by (simp add: parse_line_def generate_token_id_def Let_def)
qed

lemma checkbox_not_list:
  "startswith line ''- [ ] '' \<or> startswith line ''- [x] '' \<Longrightarrow> \<not> startswith line ''* ''"
  by (cases line) (auto simp: startswith_def)

text \<open>
  C6. For a line that starts with \<open>"- [ ] "\<close> or \<open>"- [x] "\<close>, \<open>parse_line\<close> returns
  elements of content type \<open>"paragraph"\<close>: element 0 is the checkbox marker, checked
  exactly when the \<open>x\<close> variant matched, and the rest are the elements of
  \<open>parse_by_word\<close> on the line after its first 6 characters.
\<close>

theorem parse_line_checkbox:
  assumes "startswith line ''- [ ] '' \<or> startswith line ''- [x] ''"
  shows "fst (parse_line uuid4 line w)
           = ParagraphLine (Checkbox (startswith line ''- [x] '') # parse_by_word (drop 6 line))
         \<and> content_type (fst (parse_line uuid4 line w)) = ''paragraph''
         \<and> parsed_elements (fst (parse_line uuid4 line w)) ! 0
             = Checkbox (startswith line ''- [x] '')"
  using assms checkbox_not_list [OF assms] by (simp add: parse_line_def)

theorem parse_line_checkbox_witness:
  "(startswith ''- [x] buy milk'' ''- [ ] '' \<or> startswith ''- [x] buy milk'' ''- [x] '')
   \<and> fst (parse_line (\<lambda>n. ''0f8fad5b-d9cb'') ''- [x] buy milk'' \<lparr>used = 0, mapping = Map.empty\<rparr>)
       = ParagraphLine [Checkbox True, Text [] ''buy'', Text [] '' '', Text [] ''milk'']"
  using parse_line_checkbox [of "''- [x] buy milk''" "\<lambda>n. ''0f8fad5b-d9cb''"
      "\<lparr>used = 0, mapping = Map.empty\<rparr>"]
  by (simp add: startswith_def parse_by_word_def split_ws_def is_space_def word_element_def
      is_url_def)

text \<open>
  C10. On a list line and on a checkbox line the text after the prefix goes through
  \<open>parse_by_word\<close> only, so a double-bracket link in it stays plain text: no element of
  the result is a cross-note reference.
\<close>

theorem parse_line_prefixed_no_reference:
  assumes "startswith line ''* '' \<or> startswith line ''- [ ] '' \<or> startswith line ''- [x] ''"
  shows "parsed_elements (fst (parse_line uuid4 line w))
           = (if startswith line ''* '' then parse_by_word (drop 2 line)
              else Checkbox (startswith line ''- [x] '') # parse_by_word (drop 6 line))
         \<and> \<not> list_ex is_spaceship (parsed_elements (fst (parse_line uuid4 line w)))"
proof (cases "startswith line ''* ''")
  case True
  then show ?thesis
    by (simp add: parse_line_list_depth_zero parse_by_word_no_spaceship)
next
  case False
  with assms show ?thesis
    by (simp add: parse_line_def parse_by_word_no_spaceship)
qed

theorem parse_line_prefixed_no_reference_witness:
  "(startswith ''* see [[A]]'' ''* '' \<or> startswith ''* see [[A]]'' ''- [ ] ''
      \<or> startswith ''* see [[A]]'' ''- [x] '')
   \<and> parsed_elements (fst (parse_line (\<lambda>n. ''0f8fad5b-d9cb'') ''* see [[A]]''
        \<lparr>used = 0, mapping = [''A'' \<mapsto> ''1c2d3e4f'']\<rparr>))
       = [Text [] ''see'', Text [] '' '', Text [] ''[[A]]'']"
  using parse_line_prefixed_no_reference [of "''* see [[A]]''" "\<lambda>n. ''0f8fad5b-d9cb''"
      "\<lparr>used = 0, mapping = [''A'' \<mapsto> ''1c2d3e4f'']\<rparr>"]
  by (simp add: startswith_def parse_by_word_def split_ws_def is_space_def word_element_def
      is_url_def)

section \<open>Links in plain lines\<close>

lemma has_pair_Cons:
  "has_pair c (x # s) = (s \<noteq> [] \<and> ((x = c \<and> hd s = c) \<or> has_pair c s))"
  by (cases s) simp_all

lemma plain_span_Cons:
  "plain_span (c # pre) \<Longrightarrow>
   plain_span pre \<and> \<not> (c = CHR ''['' \<and> hd (pre @ ''[['' @ rest) = CHR ''['')"
  by (cases pre) (auto simp: plain_span_def has_pair_Cons)

lemma finditer_skip_pre:
  "plain_span pre \<Longrightarrow>
   finditer pos (pre @ ''[['' @ rest) = finditer (pos + length pre) (''[['' @ rest)"
proof (induction pre arbitrary: pos)
  case Nil
  then show ?case by simp
next
  case (Cons c pre)
  from plain_span_Cons [OF Cons.prems, of rest]
  have ps: "plain_span pre" and nb: "\<not> (c = CHR ''['' \<and> hd (pre @ ''[['' @ rest) = CHR ''['')"
    by simp_all
  have "\<not> startswith ((c # pre) @ ''[['' @ rest) ''[[''"
    using nb by (cases "pre @ ''[['' @ rest") (auto simp: startswith_def)
  then have "finditer pos ((c # pre) @ ''[['' @ rest) = finditer (pos + 1) (pre @ ''[['' @ rest)"
    by (subst finditer.simps) simp
  then show ?case
    using Cons.IH [OF ps, of "pos + 1"] by simp
qed

lemma link_title_Cons:
  "link_title (c # title) \<Longrightarrow>
   link_title title \<and> c \<noteq> CHR 0x0A \<and> \<not> (c = CHR '']'' \<and> hd (title @ '']]'' @ post) = CHR '']'')"
  by (cases title) (auto simp: link_title_def has_pair_Cons)

lemma find_close_title:
  "link_title title \<Longrightarrow> find_close (title @ '']]'' @ post) = Some (length title)"
proof (induction title)
  case Nil
  then show ?case by (simp add: startswith_def)
next
  case (Cons c title)
  from link_title_Cons [OF Cons.prems, of post]
  have lt: "link_title title" and nl: "c \<noteq> CHR 0x0A"
    and nb: "\<not> (c = CHR '']'' \<and> hd (title @ '']]'' @ post) = CHR '']'')"
    by simp_all
  have "\<not> startswith (c # title @ '']]'' @ post) '']]''"
    using nb by (cases "title @ '']]'' @ post") (auto simp: startswith_def)
  then show ?case
    using nl Cons.IH [OF lt] by simp
qed

lemma find_close_None: "find_close s = None \<longleftrightarrow> \<not> closes s"
  by (induction s) auto

lemma finditer_no_link: "no_link post \<Longrightarrow> finditer pos post = []"
proof (induction post arbitrary: pos)
  case Nil
  then show ?case by (simp add: finditer.simps)
next
  case (Cons c post)
  then have np: "no_link post"
    and nc: "startswith (c # post) ''[['' \<longrightarrow> find_close (drop 2 (c # post)) = None"
    by (simp_all add: find_close_None)
  show ?case
    using nc Cons.IH [OF np, of "pos + 1"] by (subst finditer.simps) simp
qed

lemma take_drop_exact:
  "n = length m \<Longrightarrow> take n (m @ rest) = m \<and> drop n (m @ rest) = rest"
  by simp

lemma finditer_link:
  "link_title title \<Longrightarrow>
   finditer pos (''[['' @ title @ '']]'' @ rest)
     = (''[['' @ title @ '']]'', pos, pos + length title + 4) # finditer (pos + length title + 4) rest"
  using find_close_title [of title rest]
    take_drop_exact [of "length title + 4" "''[['' @ title @ '']]''" rest]
  by (subst finditer.simps) (simp add: startswith_def)

lemma finditer_assemble:
  "link_segments segs \<Longrightarrow> no_link post \<Longrightarrow>
   finditer pos (assemble segs post) = expected_matches pos segs"
proof (induction segs arbitrary: pos)
  case Nil
  then show ?case by (simp add: finditer_no_link)
next
  case (Cons seg segs)
  obtain pre title where seg: "seg = (pre, title)" by (cases seg) auto
  from Cons.prems have ps: "plain_span pre" and lt: "link_title title" and ls: "link_segments segs"
    by (simp_all add: seg link_segments_def)
  have "finditer pos (assemble (seg # segs) post)
          = finditer (pos + length pre) (''[['' @ title @ '']]'' @ assemble segs post)"
    using finditer_skip_pre [OF ps, of pos "title @ '']]'' @ assemble segs post"] by (simp add: seg)
  also have "\<dots> = (''[['' @ title @ '']]'', pos + length pre, pos + length pre + length title + 4)
                     # finditer (pos + length pre + length title + 4) (assemble segs post)"
    using finditer_link [OF lt, of "pos + length pre" "assemble segs post"] by simp
  finally show ?case
    using Cons.IH [OF ls Cons.prems(2)] by (simp add: seg)
qed

lemma links_loop_assemble:
  "line = done @ assemble segs post \<Longrightarrow>
   links_loop uuid4 line (expected_matches (length done) segs) (elements, length done) w
     = ((elements @ link_elements uuid4 (mapping w) (used w) segs,
         length done + length (assemble segs [])),
        w\<lparr>used := used w + 2 * length segs\<rparr>)"
proof (induction segs arbitrary: "done" elements w)
  case Nil
  then show ?case by simp
next
  case (Cons seg segs)
  obtain pre title where seg: "seg = (pre, title)" by (cases seg) auto
  let ?done = "done @ pre @ ''[['' @ title @ '']]''"
  let ?w2 = "w\<lparr>used := used w + 2\<rparr>"
  let ?sp = "Spaceship (case mapping w title of Some v \<Rightarrow> v | None \<Rightarrow> take 8 (uuid4 (used w)))
               (take 8 (uuid4 (used w + 1)))"
  have line: "line = ?done @ assemble segs post"
    using Cons.prems by (simp add: seg)
  have pre: "(if length done + length pre > length done
              then elements @ parse_by_word (py_slice line (length done) (length done + length pre))
              else elements) = elements @ parse_by_word pre"
    using Cons.prems by (simp add: seg py_slice_def parse_by_word_def split_ws_def)
  have title: "py_slice (''[['' @ title @ '']]'') 2 (length (''[['' @ title @ '']]'') - 2) = title"
    by (simp add: py_slice_def)
  have ld: "length ?done = length done + length pre + length title + 4"
    by simp
  have step: "links_loop uuid4 line (expected_matches (length done) (seg # segs)) (elements, length done) w
          = links_loop uuid4 line (expected_matches (length done + length pre + length title + 4) segs)
              ((elements @ parse_by_word pre) @ [?sp], length done + length pre + length title + 4) ?w2"
    using pre title by (simp add: seg generate_token_id_def Let_def add.assoc)
  have rest: "links_loop uuid4 line (expected_matches (length ?done) segs)
              ((elements @ parse_by_word pre) @ [?sp], length ?done) ?w2
          = ((((elements @ parse_by_word pre) @ [?sp]) @ link_elements uuid4 (mapping ?w2) (used ?w2) segs,
              length ?done + length (assemble segs [])),
             ?w2\<lparr>used := used ?w2 + 2 * length segs\<rparr>)"
    by (rule Cons.IH [OF line])
  show ?case
    unfolding step using rest unfolding ld by (simp add: seg add.assoc)
qed

lemma assemble_append: "assemble segs post = assemble segs [] @ post"
  by (induction segs) auto

lemma parse_line_assemble:
  assumes "link_segments segs" and "no_link post" and "plain_line (assemble segs post)"
  shows "parse_line uuid4 (assemble segs post) w
     = (ParagraphLine (expected_elements uuid4 (mapping w) (used w) segs post),
        w\<lparr>used := used w + 2 * length segs\<rparr>)"
proof -
  have len: "length (assemble segs post) = length (assemble segs []) + length post"
    by (subst assemble_append) simp
  have dr: "drop (length (assemble segs [])) (assemble segs post) = post"
    by (subst assemble_append) simp
  have loop: "links_loop uuid4 (assemble segs post) (finditer 0 (assemble segs post)) ([], 0) w
     = ((link_elements uuid4 (mapping w) (used w) segs, length (assemble segs [])),
        w\<lparr>used := used w + 2 * length segs\<rparr>)"
  proof -
    have "finditer 0 (assemble segs post) = expected_matches 0 segs"
      using assms(1) assms(2) by (rule finditer_assemble)
    then show ?thesis
      using links_loop_assemble [of "assemble segs post" "[]" segs post uuid4 "[]" w] by simp
  qed
  show ?thesis
    using assms(3) by (simp add: parse_line_def plain_line_def loop len dr expected_elements_def
        parse_by_word_def split_ws_def)
qed

lemma filter_parse_by_word: "filter is_spaceship (parse_by_word s) = []"
  using parse_by_word_no_spaceship [of s] by (simp add: list_ex_iff filter_empty_conv)

lemma link_elements_references:
  "length (filter is_spaceship (link_elements uuid4 m n segs)) = length segs
   \<and> (\<forall>i < length segs.
        linkedNoteId (filter is_spaceship (link_elements uuid4 m n segs) ! i)
          = (case m (snd (segs ! i)) of Some v \<Rightarrow> v | None \<Rightarrow> take 8 (uuid4 (n + 2 * i))))"
proof (induction segs arbitrary: n)
  case Nil
  then show ?case by simp
next
  case (Cons seg segs)
  obtain pre title where seg: "seg = (pre, title)" by (cases seg) auto
  show ?case
    using Cons.IH [of "n + 2"] by (auto simp: seg filter_parse_by_word nth_Cons split: nat.splits option.splits)
qed

lemma closes_append: "CHR 0x0A \<notin> set u \<Longrightarrow> closes (u @ '']]'' @ v)"
  by (induction u) (auto simp: startswith_def)

lemma closes_title:
  "closes r \<Longrightarrow> CHR 0x0A \<notin> set r \<Longrightarrow>
   \<exists>title rest. r = title @ '']]'' @ rest \<and> link_title title"
proof (induction r)
  case Nil
  then show ?case by simp
next
  case (Cons c cs)
  show ?case
  proof (cases "startswith (c # cs) '']]''")
    case True
    then have "c # cs = [] @ '']]'' @ drop 1 cs"
      by (cases cs) (auto simp: startswith_def)
    moreover have "link_title []"
      by (simp add: link_title_def)
    ultimately show ?thesis by blast
  next
    case False
    with Cons.prems have "closes cs" and "CHR 0x0A \<notin> set cs" and cn: "c \<noteq> CHR 0x0A"
      by auto
    from Cons.IH [OF this(1,2)] obtain title rest
      where cs: "cs = title @ '']]'' @ rest" and lt: "link_title title"
      by blast
    have "\<not> (c = CHR '']'' \<and> hd (title @ '']'') = CHR '']'')"
      using False cs by (cases title) (auto simp: startswith_def)
    then have "link_title (c # title)"
      using lt cn by (cases title) (auto simp: link_title_def)
    moreover have "c # cs = (c # title) @ '']]'' @ rest"
      using cs by simp
    ultimately show ?thesis by blast
  qed
qed

lemma plain_span_Nil: "plain_span []"
  by (simp add: plain_span_def)

text \<open>
  Every line without a newline, which is every line that \<open>convert_to_tokens\<close> passes
  on, is of this form: the occurrences are the ones the scan finds.
\<close>

lemma every_line_decomposes:
  "CHR 0x0A \<notin> set line \<Longrightarrow>
   \<exists>segs post. line = assemble segs post \<and> link_segments segs \<and> no_link post"
proof (induction line rule: length_induct)
  case (1 line)
  show ?case
  proof (cases line)
    case Nil
    have "[] = assemble [] [] \<and> link_segments [] \<and> no_link []"
      by (simp add: link_segments_def)
    then show ?thesis unfolding Nil by blast
  next
    case (Cons c cs)
    show ?thesis
    proof (cases "startswith line ''[['' \<and> closes (drop 2 line)")
      case True
      then have "take 2 line = ''[[''"
        by (simp add: startswith_def numeral_2_eq_2)
      then have l2: "line = ''[['' @ drop 2 line"
        by (metis append_take_drop_id)
      have "CHR 0x0A \<notin> set (drop 2 line)"
        using "1.prems" by (meson in_set_dropD)
      with True obtain title rest
        where r: "drop 2 line = title @ '']]'' @ rest" and lt: "link_title title"
        using closes_title by blast
      have line: "line = ''[['' @ title @ '']]'' @ rest"
        using l2 r by simp
      have "length rest < length line"
        by (subst line) simp
      moreover have "CHR 0x0A \<notin> set rest"
        using "1.prems" by (subst (asm) line) simp
      ultimately have "\<exists>segs post. rest = assemble segs post \<and> link_segments segs \<and> no_link post"
        using "1.IH" by blast
      then obtain segs post
        where "rest = assemble segs post" and "link_segments segs" and "no_link post"
        by blast
      then have "line = assemble (([], title) # segs) post
                 \<and> link_segments (([], title) # segs) \<and> no_link post"
        using line lt by (simp add: link_segments_def plain_span_Nil)
      then show ?thesis by blast
    next
      case False
      have "length cs < length line" and "CHR 0x0A \<notin> set cs"
        using Cons "1.prems" by simp_all
      with "1.IH" obtain segs post
        where cs: "cs = assemble segs post" and ls: "link_segments segs" and nl: "no_link post"
        by blast
      show ?thesis
      proof (cases segs)
        case Nil
        then have "line = assemble [] (c # post) \<and> link_segments [] \<and> no_link (c # post)"
          using False Cons cs nl by (simp add: link_segments_def)
        then show ?thesis by blast
      next
        case (Cons seg segs')
        obtain pre title where seg: "seg = (pre, title)" by (cases seg) auto
        have cs': "cs = pre @ ''[['' @ title @ '']]'' @ assemble segs' post"
          using cs Cons seg by simp
        have ps: "plain_span pre" and lt: "link_title title" and ls': "link_segments segs'"
          using ls Cons seg by (simp_all add: link_segments_def)
        have "\<not> (c = CHR ''['' \<and> hd (pre @ ''['') = CHR ''['')"
        proof
          assume a: "c = CHR ''['' \<and> hd (pre @ ''['') = CHR ''[''"
          then have sw: "startswith line ''[[''"
            using \<open>line = c # cs\<close> cs' by (cases pre) (auto simp: startswith_def)
          have "drop 2 line = tl (pre @ ''[['' @ title) @ '']]'' @ assemble segs' post"
            using \<open>line = c # cs\<close> cs' by (cases pre) auto
          moreover have "CHR 0x0A \<notin> set (tl (pre @ ''[['' @ title))"
            using \<open>CHR 0x0A \<notin> set cs\<close> cs' by (cases pre) auto
          ultimately have "closes (drop 2 line)"
            using closes_append by simp
          with sw False show False by simp
        qed
        then have "plain_span (c # pre)"
          using ps by (cases pre) (auto simp: plain_span_def)
        then have "line = assemble ((c # pre, title) # segs') post
                   \<and> link_segments ((c # pre, title) # segs') \<and> no_link post"
          using \<open>line = c # cs\<close> cs' lt ls' nl by (simp add: link_segments_def)
        then show ?thesis by blast
      qed
    qed
  qed
qed

text \<open>
  C7. A plain line with \<open>n\<close> link occurrences, each a title between double brackets
  after a span that opens no link, and a trailing span without occurrence: \<open>parse_line\<close>
  returns, for each occurrence from left to right, the elements of \<open>parse_by_word\<close> on
  the span before it and then one cross-note reference, and after the last one the
  elements of \<open>parse_by_word\<close> on the trailing span. The result has exactly \<open>n\<close>
  cross-note references, and two identifiers are generated for each.
\<close>

theorem parse_line_links_in_order:
  assumes "link_segments segs" and "no_link post"
    and "plain_line (assemble segs post)"
  shows "parse_line uuid4 (assemble segs post) w
           = (ParagraphLine (expected_elements uuid4 (mapping w) (used w) segs post),
              w\<lparr>used := used w + 2 * length segs\<rparr>)
         \<and> length (filter is_spaceship
               (parsed_elements (fst (parse_line uuid4 (assemble segs post) w))))
             = length segs"
  using link_elements_references [of uuid4 "mapping w" "used w" segs]
  by (simp add: parse_line_assemble [OF assms] expected_elements_def filter_parse_by_word)

theorem parse_line_links_in_order_witness:
  "link_segments [([], ''A''), ('' x '', ''B'')] \<and> no_link []
   \<and> plain_line ''[[A]] x [[B]]''
   \<and> fst (parse_line (\<lambda>n. if n = 0 then ''aaaaaaaa-1'' else if n = 1 then ''bbbbbbbb-2''
                          else if n = 2 then ''cccccccc-3'' else ''dddddddd-4'')
            ''[[A]] x [[B]]'' \<lparr>used = 0, mapping = [''A'' \<mapsto> ''1c2d3e4f'']\<rparr>)
       = ParagraphLine [Spaceship ''1c2d3e4f'' ''bbbbbbbb'', Text [] ''x'',
                        Spaceship ''cccccccc'' ''dddddddd'']"
  using parse_line_links_in_order [of "[([], ''A''), ('' x '', ''B'')]" "[]"
      "\<lambda>n. if n = 0 then ''aaaaaaaa-1'' else if n = 1 then ''bbbbbbbb-2''
           else if n = 2 then ''cccccccc-3'' else ''dddddddd-4''"
      "\<lparr>used = 0, mapping = [''A'' \<mapsto> ''1c2d3e4f'']\<rparr>"]
  by (simp add: link_segments_def plain_span_def link_title_def plain_line_def startswith_def
      expected_elements_def parse_by_word_def split_ws_def is_space_def word_element_def
      is_url_def)

text \<open>
  C4, as the code has it. The occurrences are the matches of the left-to-right lazy
  scan: a match starts at the first opening pair that is closed, and its title runs up
  to the first closing pair. In a plain line written out by its matches, the cross-note
  reference number \<open>i\<close> belongs to the match number \<open>i\<close>: when the matched title is
  a key of the mapping, the target identifier is the mapped value; when it is not, the
  target is the identifier that \<open>generate_token_id\<close> produced for the default of the
  lookup, the call number \<open>used w + 2 * i\<close>, and \<open>parse_line\<close> returns its elements
  as for any other line.
\<close>

theorem parse_line_link_target:
  assumes "link_segments segs" and "no_link post"
    and "plain_line (assemble segs post)" and "i < length segs"
  shows "content_type (fst (parse_line uuid4 (assemble segs post) w)) = ''paragraph''
         \<and> i < length (filter is_spaceship
                 (parsed_elements (fst (parse_line uuid4 (assemble segs post) w))))
         \<and> linkedNoteId (filter is_spaceship
               (parsed_elements (fst (parse_line uuid4 (assemble segs post) w))) ! i)
             = (case mapping w (snd (segs ! i)) of
                  Some v \<Rightarrow> v
                | None \<Rightarrow> take 8 (uuid4 (used w + 2 * i)))"
  using link_elements_references [of uuid4 "mapping w" "used w" segs] assms(4)
  by (simp add: parse_line_assemble [OF assms(1) assms(2) assms(3)] expected_elements_def
      filter_parse_by_word)

theorem parse_line_link_target_witness:
  "link_segments [(''see '', ''A''), ('' and '', ''B'')] \<and> no_link ''.''
   \<and> plain_line ''see [[A]] and [[B]].''
   \<and> map linkedNoteId (filter is_spaceship (parsed_elements
        (fst (parse_line (\<lambda>n. if n = 0 then ''aaaaaaaa-1'' else if n = 1 then ''bbbbbbbb-2''
                               else if n = 2 then ''cccccccc-3'' else ''dddddddd-4'')
          ''see [[A]] and [[B]].'' \<lparr>used = 0, mapping = [''A'' \<mapsto> ''1c2d3e4f'']\<rparr>))))
       = [''1c2d3e4f'', ''cccccccc'']"
  using parse_line_link_target [of "[(''see '', ''A''), ('' and '', ''B'')]" "''.''" 0
      "\<lambda>n. if n = 0 then ''aaaaaaaa-1'' else if n = 1 then ''bbbbbbbb-2''
           else if n = 2 then ''cccccccc-3'' else ''dddddddd-4''"
      "\<lparr>used = 0, mapping = [''A'' \<mapsto> ''1c2d3e4f'']\<rparr>"]
    parse_line_link_target [of "[(''see '', ''A''), ('' and '', ''B'')]" "''.''" 1
      "\<lambda>n. if n = 0 then ''aaaaaaaa-1'' else if n = 1 then ''bbbbbbbb-2''
           else if n = 2 then ''cccccccc-3'' else ''dddddddd-4''"
      "\<lparr>used = 0, mapping = [''A'' \<mapsto> ''1c2d3e4f'']\<rparr>"]
  by (simp add: link_segments_def plain_span_def link_title_def plain_line_def startswith_def
      parse_line_def finditer.simps py_slice_def generate_token_id_def
      parse_by_word_def split_ws_def is_space_def word_element_def is_url_def)

text \<open>
  C4, as stated, fails for an occurrence that the scan does not match as such. The plain
  line \<open>"[[[A]]"\<close> holds the text \<open>"[[A]]"\<close> after one bracket, and \<open>A\<close> is a key of
  the mapping; the scan matches from the first opening pair, looks up the title
  \<open>"[A"\<close>, which is no key, and the only cross-note reference has a generated
  identifier as its target, not the value mapped to \<open>A\<close>.
\<close>

theorem parse_line_link_target_counterexample:
  "plain_line ''[[[A]]''
   \<and> ''[[[A]]'' = ''['' @ ''[['' @ ''A'' @ '']]''
   \<and> mapping \<lparr>used = 0, mapping = [''A'' \<mapsto> ''1c2d3e4f'']\<rparr> ''A'' = Some ''1c2d3e4f''
   \<and> parsed_elements (fst (parse_line ((!) [''aaaaaaaa-1'', ''bbbbbbbb-2'']) ''[[[A]]''
         \<lparr>used = 0, mapping = [''A'' \<mapsto> ''1c2d3e4f'']\<rparr>))
       = [Spaceship ''aaaaaaaa'' ''bbbbbbbb'']
   \<and> map linkedNoteId (filter is_spaceship (parsed_elements
         (fst (parse_line ((!) [''aaaaaaaa-1'', ''bbbbbbbb-2'']) ''[[[A]]''
            \<lparr>used = 0, mapping = [''A'' \<mapsto> ''1c2d3e4f'']\<rparr>))))
       \<noteq> [''1c2d3e4f'']"
  by (simp add: plain_line_def startswith_def parse_line_def finditer.simps py_slice_def
      generate_token_id_def parse_by_word_def split_ws_def)

section \<open>Results about obsidian_to_ideaflow_link_mapping\<close>

text \<open>
  C2. For the Markdown file \<open>x.mdy.md\<close> the key is not the file name without its
  extension suffix, \<open>x.mdy\<close>: \<open>replace\<close> removes every occurrence of \<open>.md\<close>, and the
  key is \<open>xy\<close>.
\<close>

theorem link_mapping_inner_extension:
  "mapping (obsidian_to_ideaflow_link_mapping uuid4 [(''vault'', [], [''x.mdy.md''])] w) ''xy''
     = Some (take 8 (uuid4 (used w)))
   \<and> mapping (obsidian_to_ideaflow_link_mapping uuid4 [(''vault'', [], [''x.mdy.md''])] w) ''x.mdy''
     = None"
  by (simp add: obsidian_to_ideaflow_link_mapping_def endswith_def py_replace.simps
      startswith_def generate_token_id_def)

section \<open>The mapping is only read\<close>

lemma generate_token_id_mapping: "mapping (snd (generate_token_id uuid4 w)) = mapping w"
  by (simp add: generate_token_id_def)

lemma links_loop_mapping: "mapping (snd (links_loop uuid4 line ms acc w)) = mapping w"
proof (induction ms arbitrary: acc w)
  case Nil
  then show ?case by (cases acc) simp
next
  case (Cons m ms)
  obtain link start end_pos where m: "m = (link, start, end_pos)"
    by (cases m) auto
  obtain elements last_pos where acc: "acc = (elements, last_pos)"
    by (cases acc) auto
  show ?case
    by (simp add: m acc Let_def generate_token_id_def Cons.IH split: prod.splits)
qed

lemma parse_line_mapping: "mapping (snd (parse_line uuid4 line w)) = mapping w"
  by (simp add: parse_line_def Let_def generate_token_id_def split: prod.splits)
    (metis links_loop_mapping snd_conv)

lemma paragraph_token_mapping: "mapping (snd (paragraph_token uuid4 line w)) = mapping w"
proof -
  obtain r w2 where pl: "parse_line uuid4 line (snd (generate_token_id uuid4 w)) = (r, w2)"
    by (cases "parse_line uuid4 line (snd (generate_token_id uuid4 w))") auto
  have "mapping w2 = mapping w"
    using parse_line_mapping [of uuid4 line "snd (generate_token_id uuid4 w)"] pl
    by (simp add: generate_token_id_mapping)
  then show ?thesis
    using pl by (cases r) (auto simp: paragraph_token_def Let_def generate_token_id_def
        split: prod.splits)
qed

lemma paragraphs_loop_mapping:
  "mapping (snd (paragraphs_loop uuid4 ps tokens w)) = mapping w"
proof (induction ps arbitrary: tokens w)
  case Nil
  then show ?case by simp
next
  case (Cons p ps)
  obtain t w1 where pt: "paragraph_token uuid4 p w = (t, w1)"
    by (cases "paragraph_token uuid4 p w") auto
  have "mapping w1 = mapping w"
    using paragraph_token_mapping [of uuid4 p w] pt by simp
  then show ?case
    by (simp add: pt Cons.IH)
qed

text \<open>
  C9. \<open>parse_line\<close> and \<open>convert_to_tokens\<close> leave the mapping as it was, for every
  line, text and mapping; an unresolved link takes a generated identifier as its target,
  which is not stored in the mapping.
\<close>

theorem tokenization_keeps_mapping:
  "mapping (snd (parse_line uuid4 line w)) = mapping w
   \<and> mapping (snd (convert_to_tokens uuid4 content w)) = mapping w"
  by (simp add: parse_line_mapping convert_to_tokens_def paragraphs_loop_mapping)

section \<open>Results about convert_to_tokens\<close>

lemma paragraphs_loop_tokens:
  "paragraphs_loop uuid4 ps tokens w
     = (tokens @ fst (paragraphs_loop uuid4 ps [] w), snd (paragraphs_loop uuid4 ps [] w))"
proof (induction ps arbitrary: tokens w)
  case Nil
  then show ?case by simp
next
  case (Cons p ps)
  obtain t w1 where pt: "paragraph_token uuid4 p w = (t, w1)"
    by (cases "paragraph_token uuid4 p w") auto
  show ?case
    using Cons.IH [of "tokens @ [t]" w1] Cons.IH [of "[t]" w1] by (simp add: pt)
qed

lemma paragraphs_loop_Cons:
  "paragraphs_loop uuid4 (p # ps) [] w
     = (fst (paragraph_token uuid4 p w) # fst (paragraphs_loop uuid4 ps [] (snd (paragraph_token uuid4 p w))),
        snd (paragraphs_loop uuid4 ps [] (snd (paragraph_token uuid4 p w))))"
proof -
  obtain t w1 where pt: "paragraph_token uuid4 p w = (t, w1)"
    by (cases "paragraph_token uuid4 p w") auto
  show ?thesis
    using paragraphs_loop_tokens [of uuid4 ps "[t]" w1] by (simp add: pt)
qed

lemma paragraphs_loop_length:
  "length (fst (paragraphs_loop uuid4 ps [] w)) = length ps"
  by (induction ps arbitrary: w) (simp_all add: paragraphs_loop_Cons del: paragraphs_loop.simps(2))

lemma paragraphs_loop_nth:
  "i < length ps \<Longrightarrow>
   fst (paragraphs_loop uuid4 ps [] w) ! i
     = fst (paragraph_token uuid4 (ps ! i) (snd (paragraphs_loop uuid4 (take i ps) [] w)))"
proof (induction ps arbitrary: i w)
  case Nil
  then show ?case by simp
next
  case (Cons p ps)
  show ?case
  proof (cases i)
    case 0
    then show ?thesis by (simp add: paragraphs_loop_Cons del: paragraphs_loop.simps(2))
  next
    case (Suc j)
    then have "j < length ps" using Cons.prems by simp
    from Cons.IH [OF this] show ?thesis
      by (simp add: Suc paragraphs_loop_Cons del: paragraphs_loop.simps(2))
  qed
qed

lemma paragraph_token_blank:
  "strip line = [] \<Longrightarrow>
   paragraph_token uuid4 line w
     = (ParagraphToken (Paragraph (fst (generate_token_id uuid4 w)) []), snd (generate_token_id uuid4 w))"
  by (simp add: paragraph_token_def split: prod.splits)

text \<open>
  C5. \<open>convert_to_tokens\<close> returns as many tokens as the text has lines when split at
  newline characters, and the token number \<open>i\<close> is the one the loop body makes of the
  line number \<open>i\<close>, in the state the lines before it have left. For a line that is
  empty after stripping, it is a paragraph with a newly generated identifier and no
  content.
\<close>

theorem convert_to_tokens_one_token_per_line:
  "length (fst (convert_to_tokens uuid4 content w)) = length (split_nl content)
   \<and> (\<forall>i < length (split_nl content).
        fst (convert_to_tokens uuid4 content w) ! i
          = fst (paragraph_token uuid4 (split_nl content ! i)
                  (snd (paragraphs_loop uuid4 (take i (split_nl content)) [] w)))
        \<and> (strip (split_nl content ! i) = [] \<longrightarrow>
             fst (convert_to_tokens uuid4 content w) ! i
               = ParagraphToken (Paragraph
                   (fst (generate_token_id uuid4
                      (snd (paragraphs_loop uuid4 (take i (split_nl content)) [] w)))) [])))"
  by (simp add: convert_to_tokens_def paragraphs_loop_length paragraphs_loop_nth
      paragraph_token_blank)

theorem convert_to_tokens_one_token_per_line_witness:
  "length (fst (convert_to_tokens
       (\<lambda>n. if n = 0 then ''aaaaaaaa-1'' else if n = 1 then ''bbbbbbbb-2'' else ''cccccccc-3'')
       ''a\<newline>\<newline>b'' \<lparr>used = 0, mapping = Map.empty\<rparr>)) = 3
   \<and> (1::nat) < length (split_nl ''a\<newline>\<newline>b'') \<and> strip (split_nl ''a\<newline>\<newline>b'' ! 1) = []
   \<and> fst (convert_to_tokens
       (\<lambda>n. if n = 0 then ''aaaaaaaa-1'' else if n = 1 then ''bbbbbbbb-2'' else ''cccccccc-3'')
       ''a\<newline>\<newline>b'' \<lparr>used = 0, mapping = Map.empty\<rparr>) ! 1
       = ParagraphToken (Paragraph ''bbbbbbbb'' [])"
  using convert_to_tokens_one_token_per_line
      [of "\<lambda>n. if n = 0 then ''aaaaaaaa-1'' else if n = 1 then ''bbbbbbbb-2'' else ''cccccccc-3''"
          "''a\<newline>\<newline>b''" "\<lparr>used = 0, mapping = Map.empty\<rparr>"]
  by (simp add: strip_def lstrip_def rstrip_def is_space_def generate_token_id_def
      paragraph_token_def parse_line_def startswith_def finditer.simps parse_by_word_def
      split_ws_def word_element_def is_url_def)

end
